theory Spec2Isabelle
  imports Complex_Main "HOL-Library.Sublist"
begin

section \<open>Strings, values and errors\<close>

text \<open>
  A Python \<open>str\<close> is a sequence of Unicode code points; a code point is a natural number.
  String literals of the source that are pure ASCII are written with \<open>ascii\<close>.
  Python's \<open>a in b\<close> on strings is the contiguous-substring test \<open>sublist a b\<close>.

  \<open>str.lower\<close> is defined by the Unicode character database, which is not part of the
  repository. Every function that calls it takes it as its first argument \<open>lower\<close>.
  \<open>lower_latin1\<close> is the lower-casing of the ASCII and Latin-1 capitals; it agrees with
  Python's \<open>str.lower\<close> on strings of code points below 256 and is used for concrete runs.
\<close>

type_synonym ustring = "nat list"

definition ascii :: "string \<Rightarrow> ustring" where
  "ascii s = map of_char s"

definition lower_latin1 :: "ustring \<Rightarrow> ustring" where
  "lower_latin1 s =
     map (\<lambda>c. if (65 \<le> c \<and> c \<le> 90) \<or> (192 \<le> c \<and> c \<le> 222 \<and> c \<noteq> 215) then c + 32 else c) s"

datatype error = KeyError ustring | ZeroDivisionError | ValueError

text \<open>Division \<open>a / b\<close> raises \<open>ZeroDivisionError\<close> on a zero divisor;
  \<open>math.log2\<close> raises \<open>ValueError\<close> outside its domain. A metric score is a real
  number: the rounding of floating-point arithmetic is not modelled.\<close>

definition py_div :: "real \<Rightarrow> real \<Rightarrow> error + real" where
  "py_div a b = (if b = 0 then Inl ZeroDivisionError else Inr (a / b))"

definition math_log2 :: "real \<Rightarrow> error + real" where
  "math_log2 x = (if x \<le> 0 then Inl ValueError else Inr (log 2 x))"

text \<open>The slice \<open>xs[:k]\<close>: the first \<open>k\<close> elements for \<open>k \<ge> 0\<close>, and for a negative
  \<open>k\<close> the elements before index \<open>max (len xs + k) 0\<close>.\<close>

definition py_slice_upto :: "'a list \<Rightarrow> int \<Rightarrow> 'a list" where
  "py_slice_upto xs k =
     (if 0 \<le> k then take (nat k) xs else take (nat (int (length xs) + k)) xs)"

section \<open>Metrics (modules\_annexes/metrics.py)\<close>

text \<open>A document is a dict with the key \<open>text\<close> and an optional \<open>meta\<close> mapping.
  A ranked result list is a list of (document, score) pairs.\<close>

record document =
  doc_text :: ustring
  meta :: "(string \<rightharpoonup> ustring) option"

type_synonym results = "(document \<times> real) list"

definition is_relevant :: "(ustring \<Rightarrow> ustring) \<Rightarrow> ustring \<Rightarrow> ustring list \<Rightarrow> bool" where
  "is_relevant lower document_text relevant_keywords =
     (let t = lower document_text
      in list_ex (\<lambda>keyword. sublist (lower keyword) t) relevant_keywords)"

fun recall_loop :: "(ustring \<Rightarrow> ustring) \<Rightarrow> results \<Rightarrow> ustring list \<Rightarrow> int" where
  "recall_loop lower [] relevant_keywords = 0"
| "recall_loop lower ((doc, _) # rest) relevant_keywords =
     (if is_relevant lower (doc_text doc) relevant_keywords then 1
      else recall_loop lower rest relevant_keywords)"

definition recall_at_k :: "(ustring \<Rightarrow> ustring) \<Rightarrow> results \<Rightarrow> ustring list \<Rightarrow> int \<Rightarrow> int" where
  "recall_at_k lower results relevant_keywords k =
     (let top_k = py_slice_upto results k in recall_loop lower top_k relevant_keywords)"

text \<open>\<open>enumerate(results, start=1)\<close>: the loop carries the rank.\<close>

fun rr_loop :: "(ustring \<Rightarrow> ustring) \<Rightarrow> nat \<Rightarrow> results \<Rightarrow> ustring list \<Rightarrow> error + real" where
  "rr_loop lower rank [] relevant_keywords = Inr 0"
| "rr_loop lower rank ((doc, _) # rest) relevant_keywords =
     (if is_relevant lower (doc_text doc) relevant_keywords then py_div 1 (real rank)
      else rr_loop lower (Suc rank) rest relevant_keywords)"

definition reciprocal_rank :: "(ustring \<Rightarrow> ustring) \<Rightarrow> results \<Rightarrow> ustring list \<Rightarrow> error + real" where
  "reciprocal_rank lower results relevant_keywords = rr_loop lower 1 results relevant_keywords"

text \<open>The gain \<open>1 / math.log2(i + 1)\<close> added at position \<open>i\<close>.\<close>

definition gain :: "nat \<Rightarrow> error + real" where
  "gain i = (case math_log2 (real (i + 1)) of Inl e \<Rightarrow> Inl e | Inr l \<Rightarrow> py_div 1 l)"

text \<open>The first loop of \<open>ndcg_at_k\<close>, with its two accumulators \<open>dcg\<close> and \<open>relevances\<close>.\<close>

fun dcg_loop ::
  "(ustring \<Rightarrow> ustring) \<Rightarrow> ustring list \<Rightarrow> nat \<Rightarrow> results \<Rightarrow> real \<Rightarrow> nat list
     \<Rightarrow> error + (real \<times> nat list)" where
  "dcg_loop lower relevant_keywords i [] dcg relevances = Inr (dcg, relevances)"
| "dcg_loop lower relevant_keywords i ((doc, _) # rest) dcg relevances =
     (if is_relevant lower (doc_text doc) relevant_keywords then
        (case gain i of
           Inl e \<Rightarrow> Inl e
         | Inr g \<Rightarrow> dcg_loop lower relevant_keywords (Suc i) rest (dcg + g) (relevances @ [1]))
      else dcg_loop lower relevant_keywords (Suc i) rest dcg relevances)"

text \<open>The second loop, over \<open>range(1, len(relevances) + 1)\<close>.\<close>

fun idcg_loop :: "nat list \<Rightarrow> real \<Rightarrow> error + real" where
  "idcg_loop [] idcg = Inr idcg"
| "idcg_loop (i # is) idcg =
     (case gain i of Inl e \<Rightarrow> Inl e | Inr g \<Rightarrow> idcg_loop is (idcg + g))"

definition ndcg_at_k :: "(ustring \<Rightarrow> ustring) \<Rightarrow> results \<Rightarrow> ustring list \<Rightarrow> int \<Rightarrow> error + real" where
  "ndcg_at_k lower results relevant_keywords k =
     (case dcg_loop lower relevant_keywords 1 (py_slice_upto results k) 0 [] of
        Inl e \<Rightarrow> Inl e
      | Inr (dcg, relevances) \<Rightarrow>
          if relevances = [] then Inr 0
          else (case idcg_loop [1 ..< length relevances + 1] 0 of
                  Inl e \<Rightarrow> Inl e
                | Inr idcg \<Rightarrow> py_div dcg idcg))"

text \<open>Specification side of nDCG@k: the first \<open>k\<close> results of a ranked list (none of
  them when \<open>k < 1\<close>), the 1-based positions of the relevant results of a list, and the
  discount \<open>1 / log2(i + 1)\<close> of a position.\<close>

definition first_k :: "'a list \<Rightarrow> int \<Rightarrow> 'a list" where
  "first_k xs k = take (nat k) xs"

definition relevant_positions ::
  "(ustring \<Rightarrow> ustring) \<Rightarrow> results \<Rightarrow> ustring list \<Rightarrow> nat list" where
  "relevant_positions lower w relevant_keywords =
     filter (\<lambda>i. is_relevant lower (doc_text (fst (w ! (i - 1)))) relevant_keywords)
       [1 ..< length w + 1]"

definition discount :: "nat \<Rightarrow> real" where
  "discount i = 1 / log 2 (real (i + 1))"

text \<open>The two ranked lists of the specification's scenarios A and B, with their keyword oracle.\<close>

definition doc_a :: document where
  "doc_a = \<lparr>doc_text = ascii ''Licenciement pour Faute Grave'', meta = None\<rparr>"

definition doc_b :: document where
  "doc_b = \<lparr>doc_text = ascii ''Conges payes'', meta = None\<rparr>"

definition scenario_a :: results where
  "scenario_a = [(doc_a, 9 / 10), (doc_b, 1 / 2)]"

definition scenario_b :: results where
  "scenario_b = [(doc_b, 9 / 10), (doc_a, 1 / 2)]"

definition scenario_keywords :: "ustring list" where
  "scenario_keywords = [ascii ''faute grave'']"

section \<open>Query understanding (modules\_annexes/query\_understanding.py)\<close>

text \<open>
  The regular expressions of \<open>normalize_text\<close> are Unicode patterns: \<open>\s\<close> matches the
  code points for which \<open>str.isspace\<close> holds, which are also the ones \<open>str.strip\<close> removes.
  The character class lists \<open>a-z\<close> and seventeen accented letters, as code points.
\<close>

definition is_space :: "nat \<Rightarrow> bool" where
  "is_space c =
     ((9 \<le> c \<and> c \<le> 13) \<or> (28 \<le> c \<and> c \<le> 32) \<or> c = 133 \<or> c = 160 \<or> c = 5760
      \<or> (8192 \<le> c \<and> c \<le> 8202) \<or> c = 8232 \<or> c = 8233 \<or> c = 8239 \<or> c = 8287
      \<or> c = 12288)"

definition is_letter :: "nat \<Rightarrow> bool" where
  "is_letter c =
     ((97 \<le> c \<and> c \<le> 122)
      \<or> c \<in> set [224, 226, 231, 233, 232, 234, 235, 238, 239, 244, 251, 249, 252, 255,
                   241, 230, 339])"

text \<open>\<open>re.sub(r"[^a-z...\s]", " ", text)\<close>: every other character becomes a space.\<close>

definition sub_special :: "ustring \<Rightarrow> ustring" where
  "sub_special s = map (\<lambda>c. if is_letter c \<or> is_space c then c else 32) s"

text \<open>\<open>re.sub(r"\s+", " ", text)\<close>: every maximal run of whitespace becomes one space.\<close>

function sub_spaces :: "ustring \<Rightarrow> ustring" where
  "sub_spaces [] = []"
| "sub_spaces (c # cs) =
     (if is_space c then 32 # sub_spaces (dropWhile is_space cs) else c # sub_spaces cs)"
  by pat_completeness auto
termination
  by (relation "measure length") (auto simp: length_dropWhile_le less_Suc_eq_le)

definition strip :: "ustring \<Rightarrow> ustring" where
  "strip s = rev (dropWhile is_space (rev (dropWhile is_space s)))"

definition normalize_text :: "(ustring \<Rightarrow> ustring) \<Rightarrow> ustring \<Rightarrow> ustring" where
  "normalize_text lower t = (let t1 = lower t; t2 = sub_special t1 in strip (sub_spaces t2))"

text \<open>
  The shape of a normalized text: only letters of the character class and the space U+0020
  (\<open>plain\<close>), every whitespace character a U+0020 that is not followed by whitespace
  (\<open>single_spaced\<close>), and no whitespace at either end (\<open>trimmed\<close>).
\<close>

definition plain :: "ustring \<Rightarrow> bool" where
  "plain s = list_all (\<lambda>c. is_letter c \<or> c = 32) s"

fun single_spaced :: "ustring \<Rightarrow> bool" where
  "single_spaced [] = True"
| "single_spaced [c] = (is_space c \<longrightarrow> c = 32)"
| "single_spaced (c # d # cs) =
     ((is_space c \<longrightarrow> c = 32 \<and> \<not> is_space d) \<and> single_spaced (d # cs))"

definition trimmed :: "ustring \<Rightarrow> bool" where
  "trimmed s = (s = [] \<or> (\<not> is_space (hd s) \<and> \<not> is_space (last s)))"

text \<open>
  The dictionary loaded from its file: intent keys in their declared order, each with a
  mapping from field names to lists of strings. A missing key raises \<open>KeyError\<close>.
\<close>

type_synonym intent_data = "string \<rightharpoonup> ustring list"
type_synonym dictionary = "(ustring \<times> intent_data) list"

definition dict_get :: "dictionary \<Rightarrow> ustring \<Rightarrow> error + intent_data" where
  "dict_get dictionary intent_key =
     (case map_of dictionary intent_key of
        None \<Rightarrow> Inl (KeyError intent_key)
      | Some intent_data \<Rightarrow> Inr intent_data)"

definition field_get :: "intent_data \<Rightarrow> string \<Rightarrow> error + ustring list" where
  "field_get intent_data field =
     (case intent_data field of
        None \<Rightarrow> Inl (KeyError (ascii field))
      | Some v \<Rightarrow> Inr v)"

text \<open>The inner loop of \<open>detect_intention\<close>: does it reach its \<open>return\<close>?\<close>

fun phrase_loop :: "ustring list \<Rightarrow> ustring \<Rightarrow> bool" where
  "phrase_loop [] normalized_query = False"
| "phrase_loop (phrase # rest) normalized_query =
     (if sublist phrase normalized_query then True else phrase_loop rest normalized_query)"

fun detect_loop :: "dictionary \<Rightarrow> ustring \<Rightarrow> error + ustring option" where
  "detect_loop [] normalized_query = Inr None"
| "detect_loop ((intent_key, intent_data) # rest) normalized_query =
     (case field_get intent_data ''intentions_utilisateur'' of
        Inl e \<Rightarrow> Inl e
      | Inr phrases \<Rightarrow>
          if phrase_loop phrases normalized_query then Inr (Some intent_key)
          else detect_loop rest normalized_query)"

definition detect_intention ::
  "(ustring \<Rightarrow> ustring) \<Rightarrow> ustring \<Rightarrow> dictionary \<Rightarrow> error + ustring option" where
  "detect_intention lower query dictionary =
     (let normalized_query = normalize_text lower query
      in detect_loop dictionary normalized_query)"

text \<open>\<open>sep.join(xs)\<close>.\<close>

fun py_join :: "ustring \<Rightarrow> ustring list \<Rightarrow> ustring" where
  "py_join sep [] = []"
| "py_join sep [x] = x"
| "py_join sep (x # y # ys) = x @ sep @ py_join sep (y # ys)"

definition enrich_query :: "ustring \<Rightarrow> ustring \<Rightarrow> dictionary \<Rightarrow> error + ustring" where
  "enrich_query query intent_key dictionary =
     (case dict_get dictionary intent_key of
        Inl e \<Rightarrow> Inl e
      | Inr intent_data \<Rightarrow>
          (case field_get intent_data ''concepts_juridiques_centrals'' of
             Inl e \<Rightarrow> Inl e
           | Inr concepts \<Rightarrow>
               (case field_get intent_data ''termes_juridiques_textes'' of
                  Inl e \<Rightarrow> Inl e
                | Inr termes \<Rightarrow>
                    (let enriched_terms = concepts @ termes
                     in Inr (query @ [32] @ py_join [32] enriched_terms)))))"

text \<open>The values stored in the result dict of \<open>process_user_query\<close>, and the note
  \<open>"Aucune intention metier detectee"\<close>, whose three accented letters are U+00E9.\<close>

datatype pyval = PNone | PStr ustring | PList "ustring list"

definition no_intent_note :: ustring where
  "no_intent_note =
     ascii ''Aucune intention m'' @ [233] @ ascii ''tier d'' @ [233] @ ascii ''tect'' @ [233]
       @ ascii ''e''"

definition process_user_query ::
  "(ustring \<Rightarrow> ustring) \<Rightarrow> ustring \<Rightarrow> dictionary \<Rightarrow> error + (string \<rightharpoonup> pyval)" where
  "process_user_query lower query dictionary =
     (case detect_intention lower query dictionary of
        Inl e \<Rightarrow> Inl e
      | Inr None \<Rightarrow>
          Inr [''intent_detected'' \<mapsto> PNone,
               ''enriched_query'' \<mapsto> PStr query,
               ''notes'' \<mapsto> PStr no_intent_note]
      | Inr (Some intent) \<Rightarrow>
          (case enrich_query query intent dictionary of
             Inl e \<Rightarrow> Inl e
           | Inr enriched_query \<Rightarrow>
               (case dict_get dictionary intent of
                  Inl e \<Rightarrow> Inl e
                | Inr d1 \<Rightarrow>
                    (case field_get d1 ''codes_cibles'' of
                       Inl e \<Rightarrow> Inl e
                     | Inr codes \<Rightarrow>
                         (case dict_get dictionary intent of
                            Inl e \<Rightarrow> Inl e
                          | Inr d2 \<Rightarrow>
                              (case field_get d2 ''articles_cibles'' of
                                 Inl e \<Rightarrow> Inl e
                               | Inr articles \<Rightarrow>
                                   Inr [''intent_detected'' \<mapsto> PStr intent,
                                        ''enriched_query'' \<mapsto> PStr enriched_query,
                                        ''codes_cibles'' \<mapsto> PList codes,
                                        ''articles_cibles'' \<mapsto> PList articles]))))))"

text \<open>
  A dictionary as the data model describes it: the keys are distinct (it is a mapping) and
  every entry carries the five required fields.
\<close>

definition required_fields :: "string list" where
  "required_fields =
     [''intentions_utilisateur'', ''concepts_juridiques_centrals'', ''termes_juridiques_textes'',
      ''codes_cibles'', ''articles_cibles'']"

definition well_formed :: "dictionary \<Rightarrow> bool" where
  "well_formed d =
     (distinct (map fst d)
      \<and> list_all (\<lambda>(k, e). list_all (\<lambda>f. e f \<noteq> None) required_fields) d)"

text \<open>Specification side of intent detection: an entry matches when one of its trigger phrases
  is a substring of the normalized query; the detected intent is the key of the first
  matching entry in declaration order.\<close>

definition entry_matches :: "ustring \<Rightarrow> intent_data \<Rightarrow> bool" where
  "entry_matches nq e =
     (case e ''intentions_utilisateur'' of
        None \<Rightarrow> False
      | Some phrases \<Rightarrow> list_ex (\<lambda>p. sublist p nq) phrases)"

definition first_match :: "ustring \<Rightarrow> dictionary \<Rightarrow> ustring option" where
  "first_match nq d = map_option fst (List.find (\<lambda>(k, e). entry_matches nq e) d)"

text \<open>Specification side of enrichment: the terms joined by single spaces, that is the first
  term followed by every further term preceded by one space.\<close>

definition space_joined :: "ustring list \<Rightarrow> ustring" where
  "space_joined terms =
     (case terms of [] \<Rightarrow> [] | t # rest \<Rightarrow> t @ concat (map (\<lambda>u. 32 # u) rest))"

text \<open>A dictionary for scenario D. Its second entry has the trigger phrase
  \<open>"rompu sans preavis"\<close> (the accented letter is U+00E9); the trigger of the third entry
  occurs in the scenario's query as well, the one of the first does not.\<close>

definition economique_entry :: intent_data where
  "economique_entry =
     [''intentions_utilisateur'' \<mapsto> [ascii ''motif economique''],
      ''concepts_juridiques_centrals'' \<mapsto> [ascii ''licenciement economique''],
      ''termes_juridiques_textes'' \<mapsto> [],
      ''codes_cibles'' \<mapsto> [ascii ''code du travail''],
      ''articles_cibles'' \<mapsto> [ascii ''L1233-3'']]"

definition rupture_entry :: intent_data where
  "rupture_entry =
     [''intentions_utilisateur'' \<mapsto>
        [ascii ''rupture immediate'', ascii ''rompu sans pr'' @ [233] @ ascii ''avis''],
      ''concepts_juridiques_centrals'' \<mapsto> [ascii ''faute grave'', ascii ''faute lourde''],
      ''termes_juridiques_textes'' \<mapsto> [ascii ''licenciement''],
      ''codes_cibles'' \<mapsto> [ascii ''code du travail''],
      ''articles_cibles'' \<mapsto> [ascii ''L1234-1'']]"

definition cdi_entry :: intent_data where
  "cdi_entry =
     [''intentions_utilisateur'' \<mapsto> [ascii ''cdi''],
      ''concepts_juridiques_centrals'' \<mapsto> [ascii ''contrat a duree indeterminee''],
      ''termes_juridiques_textes'' \<mapsto> [],
      ''codes_cibles'' \<mapsto> [],
      ''articles_cibles'' \<mapsto> []]"

definition example_dictionary :: dictionary where
  "example_dictionary =
     [(ascii ''licenciement_economique'', economique_entry),
      (ascii ''rupture_sans_preavis'', rupture_entry),
      (ascii ''cdi'', cdi_entry)]"

definition cdi_query :: ustring where
  "cdi_query = ascii ''Dans quels cas un CDI peut-il '' @ [234] @ ascii ''tre rompu sans pr''
     @ [233] @ ascii ''avis ?''"

definition other_query :: ustring where
  "other_query = ascii ''Bonjour, quelle heure est-il ?''"

section \<open>Article-prefix oracle (notebooks/benchmark\_queries\_v2.py)\<close>

record BenchmarkQueryV2 =
  qid :: ustring
  question :: ustring
  relevant_num_prefixes :: "ustring list"
  relevant_keywords_fallback :: "ustring list option"

text \<open>The structured article reference \<open>meta.num\<close> of a document, when it has one.\<close>

definition meta_num :: "document \<Rightarrow> ustring option" where
  "meta_num doc = (case meta doc of None \<Rightarrow> None | Some m \<Rightarrow> m ''num'')"

text \<open>Modelled from the spec: the function that judges a document against a
  \<open>BenchmarkQueryV2\<close> is missing from the sources (only the dataclass and the registry
  are there). Section 4.5: a document is relevant iff \<open>meta.num\<close> starts with any accepted
  prefix; if \<open>meta.num\<close> is absent or empty, the keyword oracle is applied to
  \<open>relevant_keywords_fallback\<close> if provided, else the document is not relevant.\<close>

definition is_relevant_v2 :: "(ustring \<Rightarrow> ustring) \<Rightarrow> document \<Rightarrow> BenchmarkQueryV2 \<Rightarrow> bool" where
  "is_relevant_v2 lower doc bq =
     (let fallback =
            (case relevant_keywords_fallback bq of
               None \<Rightarrow> False
             | Some kws \<Rightarrow> is_relevant lower (doc_text doc) kws)
      in case meta_num doc of
           None \<Rightarrow> fallback
         | Some num \<Rightarrow>
             if num = [] then fallback
             else list_ex (\<lambda>p. prefix p num) (relevant_num_prefixes bq))"

text \<open>The first two records of \<open>get_benchmark_queries_v2\<close> (accented letters and the
  apostrophe as code points), a query without fallback keywords, and a chunk of
  article L1234-3 for scenario E.\<close>

definition benchmark_q1 :: BenchmarkQueryV2 where
  "benchmark_q1 =
     \<lparr>qid = ascii ''Q1'',
      question = cdi_query,
      relevant_num_prefixes = [ascii ''L1234''],
      relevant_keywords_fallback =
        Some [ascii ''pr'' @ [233] @ ascii ''avis'',
              ascii ''indemnit'' @ [233] @ ascii '' compensatrice'',
              ascii ''faute grave'',
              ascii ''faute lourde'']\<rparr>"

definition benchmark_q2 :: BenchmarkQueryV2 where
  "benchmark_q2 =
     \<lparr>qid = ascii ''Q2'',
      question = ascii ''Qu'' @ [39] @ ascii ''est-ce qu'' @ [39]
        @ ascii ''un licenciement pour motif '' @ [233] @ ascii ''conomique ?'',
      relevant_num_prefixes = [ascii ''L1233''],
      relevant_keywords_fallback =
        Some [ascii ''motif '' @ [233] @ ascii ''conomique'',
              ascii ''difficult'' @ [233] @ ascii ''s '' @ [233] @ ascii ''conomiques'',
              ascii ''mutations technologiques'',
              ascii ''suppression'',
              ascii ''transformation d'' @ [39] @ ascii ''emploi'']\<rparr>"

definition bare_query :: BenchmarkQueryV2 where
  "bare_query =
     \<lparr>qid = ascii ''Q0'', question = cdi_query, relevant_num_prefixes = [ascii ''L1234''],
      relevant_keywords_fallback = None\<rparr>"

definition doc_l1234 :: document where
  "doc_l1234 =
     \<lparr>doc_text = ascii ''Le salarie a droit a un delai-conge'',
      meta = Some [''num'' \<mapsto> ascii ''L1234-3'', ''titre'' \<mapsto> ascii ''Code du travail'']\<rparr>"

section \<open>Properties of the metrics\<close>

lemma is_relevant_no_keywords: "is_relevant lower t [] = False"
  by (simp add: is_relevant_def)

lemma recall_loop_no_keywords: "recall_loop lower rs [] = 0"
  by (induction rs) (auto simp: is_relevant_no_keywords)

lemma rr_loop_no_keywords: "rr_loop lower r rs [] = Inr 0"
  by (induction rs arbitrary: r) (auto simp: is_relevant_no_keywords)

lemma dcg_loop_no_keywords: "dcg_loop lower [] i rs dcg rels = Inr (dcg, rels)"
  by (induction rs arbitrary: i) (auto simp: is_relevant_no_keywords)

lemma py_slice_upto_empty: "k = 0 \<or> int (length xs) \<le> - k \<Longrightarrow> py_slice_upto xs k = []"
  by (auto simp: py_slice_upto_def)

lemma py_slice_upto_Nil: "py_slice_upto [] k = []"
  by (simp add: py_slice_upto_def)

lemma ndcg_at_k_empty_window:
  "py_slice_upto results k = [] \<Longrightarrow> ndcg_at_k lower results kws k = Inr 0"
  by (simp add: ndcg_at_k_def)

lemma recall_at_k_empty_window:
  "py_slice_upto results k = [] \<Longrightarrow> recall_at_k lower results kws k = 0"
  by (simp add: recall_at_k_def)

lemma log2_pos: "1 \<le> i \<Longrightarrow> 0 < log 2 (real (i + 1))"
  by simp

lemma gain_discount: "1 \<le> i \<Longrightarrow> gain i = Inr (discount i)"
proof -
  assume "1 \<le> i"
  then have pos: "0 < log 2 (real (i + 1))" by (rule log2_pos)
  have arg: "\<not> real (i + 1) \<le> 0" by simp
  have "math_log2 (real (i + 1)) = Inr (log 2 (real (i + 1)))"
    unfolding math_log2_def using arg by (simp only: if_False)
  moreover have "log 2 (real (i + 1)) \<noteq> 0" using pos by (rule less_imp_neq [THEN not_sym])
  then have "py_div 1 (log 2 (real (i + 1))) = Inr (1 / log 2 (real (i + 1)))"
    unfolding py_div_def by (simp only: if_False)
  ultimately show ?thesis
    unfolding gain_def discount_def by (simp only: sum.case)
qed

lemma discount_pos: "1 \<le> i \<Longrightarrow> 0 < discount i"
  using log2_pos [of i] by (simp add: discount_def)

lemma positions_Cons:
  "filter (\<lambda>j. P ((r # rs) ! (j - i))) [i ..< i + Suc (length rs)] =
     (if P r then [i] else []) @ filter (\<lambda>j. P (rs ! (j - Suc i))) [Suc i ..< Suc i + length rs]"
proof -
  have "[i ..< i + Suc (length rs)] = i # [Suc i ..< i + Suc (length rs)]"
    by (rule upt_conv_Cons) simp
  then have split: "[i ..< i + Suc (length rs)] = i # [Suc i ..< Suc i + length rs]"
    by (simp only: add_Suc add_Suc_right)
  have tl: "filter (\<lambda>j. P ((r # rs) ! (j - i))) [Suc i ..< Suc i + length rs] =
            filter (\<lambda>j. P (rs ! (j - Suc i))) [Suc i ..< Suc i + length rs]"
  proof (rule filter_cong)
    fix j assume "j \<in> set [Suc i ..< Suc i + length rs]"
    then have "Suc i \<le> j" by (simp del: upt_Suc)
    then have "j - i = Suc (j - Suc i)" by arith
    then show "P ((r # rs) ! (j - i)) = P (rs ! (j - Suc i))" by simp
  qed simp
  show ?thesis unfolding split using tl by simp
qed

lemma dcg_loop_sum:
  "1 \<le> i \<Longrightarrow>
   dcg_loop lower kws i rs dcg rels =
     (let hits = filter (\<lambda>j. is_relevant lower (doc_text (fst (rs ! (j - i)))) kws)
                   [i ..< i + length rs]
      in Inr (dcg + sum_list (map discount hits), rels @ replicate (length hits) 1))"
proof (induction rs arbitrary: i dcg rels)
  case Nil
  then show ?case by simp
next
  case (Cons r rs)
  obtain doc score where r: "r = (doc, score)" by (cases r)
  have pc: "filter (\<lambda>j. is_relevant lower (doc_text (fst ((r # rs) ! (j - i)))) kws)
              [i ..< i + length (r # rs)] =
            (if is_relevant lower (doc_text (fst r)) kws then [i] else [])
              @ filter (\<lambda>j. is_relevant lower (doc_text (fst (rs ! (j - Suc i)))) kws)
                  [Suc i ..< Suc i + length rs]"
    using positions_Cons [of "\<lambda>x. is_relevant lower (doc_text (fst x)) kws" r rs i] by simp
  have ih: "\<And>d rl. dcg_loop lower kws (Suc i) rs d rl =
     (let hits = filter (\<lambda>j. is_relevant lower (doc_text (fst (rs ! (j - Suc i)))) kws)
                   [Suc i ..< Suc i + length rs]
      in Inr (d + sum_list (map discount hits), rl @ replicate (length hits) 1))"
    using Cons.IH [of "Suc i"] by simp
  show ?case
    unfolding pc using Cons.prems
    by (simp add: r ih gain_discount Let_def replicate_append_same)
qed

lemma idcg_loop_sum:
  "\<forall>i \<in> set js. 1 \<le> i \<Longrightarrow> idcg_loop js idcg = Inr (idcg + sum_list (map discount js))"
  by (induction js arbitrary: idcg) (auto simp: gain_discount)

lemma sum_discount_pos:
  "js \<noteq> [] \<Longrightarrow> \<forall>i \<in> set js. 1 \<le> i \<Longrightarrow> 0 < sum_list (map discount js)"
proof (induction js)
  case Nil
  then show ?case by simp
next
  case (Cons j js)
  have "0 < discount j" using Cons.prems by (simp add: discount_pos)
  moreover have "0 \<le> sum_list (map discount js)"
  proof (rule sum_list_nonneg)
    fix x assume "x \<in> set (map discount js)"
    then obtain i where "i \<in> set js" "x = discount i" by auto
    then show "0 \<le> x" using Cons.prems discount_pos [of i] by simp
  qed
  ultimately show ?case by simp
qed

lemma relevant_positions_empty_iff:
  "(filter (\<lambda>i. P (w ! (i - 1))) [1 ..< length w + 1] = []) = (\<not> list_ex P w)"
proof -
  have "(\<exists>i \<in> {1 ..< length w + 1}. P (w ! (i - 1))) = (\<exists>x \<in> set w. P x)"
  proof
    assume "\<exists>i \<in> {1 ..< length w + 1}. P (w ! (i - 1))"
    then obtain i where "1 \<le> i" "i < length w + 1" "P (w ! (i - 1))" by auto
    then show "\<exists>x \<in> set w. P x" by (intro bexI [of _ "w ! (i - 1)"]) auto
  next
    assume "\<exists>x \<in> set w. P x"
    then obtain n where "n < length w" "P (w ! n)" by (auto simp: in_set_conv_nth)
    then show "\<exists>i \<in> {1 ..< length w + 1}. P (w ! (i - 1))"
      by (intro bexI [of _ "Suc n"]) auto
  qed
  then show ?thesis by (auto simp: filter_empty_conv list_ex_iff)
qed

lemma doc_a_relevant: "is_relevant lower_latin1 (doc_text doc_a) scenario_keywords"
  by (simp add: is_relevant_def doc_a_def scenario_keywords_def ascii_def lower_latin1_def
      sublist_code(3))

lemma doc_b_not_relevant: "\<not> is_relevant lower_latin1 (doc_text doc_b) scenario_keywords"
  by (simp add: is_relevant_def doc_b_def scenario_keywords_def ascii_def lower_latin1_def
      sublist_code(3))

text \<open>The value of \<open>ndcg_at_k\<close> in terms of the window \<open>results[:k]\<close> that its first loop
  runs over; it never raises.\<close>

lemma ndcg_at_k_window:
  "ndcg_at_k lower results kws k =
     (let hits = relevant_positions lower (py_slice_upto results k) kws
      in if hits = [] then Inr 0
         else Inr ((\<Sum>i\<leftarrow>hits. discount i) / (\<Sum>j\<leftarrow>[1 ..< length hits + 1]. discount j)))"
proof -
  define w where "w = py_slice_upto results k"
  define hits where "hits = relevant_positions lower w kws"
  have hits: "hits = filter (\<lambda>j. is_relevant lower (doc_text (fst (w ! (j - 1)))) kws)
                       [1 ..< 1 + length w]"
    by (simp add: hits_def relevant_positions_def del: upt_Suc)
  have loop: "dcg_loop lower kws 1 w 0 [] =
                Inr (sum_list (map discount hits), replicate (length hits) 1)"
    using dcg_loop_sum [of 1 lower kws w 0 "[]"] by (simp add: hits Let_def del: upt_Suc)
  show ?thesis
  proof (cases "hits = []")
    case True
    then show ?thesis
      using loop by (simp add: ndcg_at_k_def w_def [symmetric] hits_def [symmetric])
  next
    case False
    have ideal: "idcg_loop [1 ..< length hits + 1] 0 =
                   Inr (sum_list (map discount [1 ..< length hits + 1]))"
      using idcg_loop_sum [of "[1 ..< length hits + 1]" 0] by (simp del: upt_Suc)
    have "0 < sum_list (map discount [1 ..< length hits + 1])"
      using False by (intro sum_discount_pos) (auto simp del: upt_Suc)
    then have nz: "sum_list (map discount [1 ..< length hits + 1]) \<noteq> 0" by simp
    show ?thesis
      using False loop ideal nz
      by (simp add: ndcg_at_k_def w_def [symmetric] hits_def [symmetric] py_div_def)
  qed
qed

lemma py_slice_upto_first_k:
  "0 \<le> k \<or> int (length xs) \<le> - k \<Longrightarrow> py_slice_upto xs k = first_k xs k"
  by (auto simp: py_slice_upto_def first_k_def)

text \<open>
  C9 (amended). For \<open>k \<ge> 0\<close>, and for a negative \<open>k\<close> with \<open>len(results) \<le> -k\<close>,
  \<open>ndcg_at_k\<close> returns 0 when no result among the first \<open>k\<close> is relevant, without any
  division; otherwise it returns DCG / IDCG, where DCG is the sum of \<open>1 / log2(i + 1)\<close> over
  the 1-based positions \<open>i\<close> of the relevant results among the first \<open>k\<close>, and IDCG the
  sum of \<open>1 / log2(j + 1)\<close> for \<open>j\<close> from 1 to the number of those relevant results. It
  never raises.
\<close>

theorem ndcg_at_k_formula:
  assumes "0 \<le> k \<or> int (length results) \<le> - k"
  shows "ndcg_at_k lower results kws k =
     (let hits = relevant_positions lower (first_k results k) kws
      in if hits = [] then Inr 0
         else Inr ((\<Sum>i\<leftarrow>hits. discount i) / (\<Sum>j\<leftarrow>[1 ..< length hits + 1]. discount j)))
   \<and> (relevant_positions lower (first_k results k) kws = []) =
       (\<not> list_ex (\<lambda>(doc, _). is_relevant lower (doc_text doc) kws) (first_k results k))"
proof
  show "ndcg_at_k lower results kws k =
     (let hits = relevant_positions lower (first_k results k) kws
      in if hits = [] then Inr 0
         else Inr ((\<Sum>i\<leftarrow>hits. discount i) / (\<Sum>j\<leftarrow>[1 ..< length hits + 1]. discount j)))"
    using ndcg_at_k_window [of lower results kws k]
    unfolding py_slice_upto_first_k [OF assms] .
  show "(relevant_positions lower (first_k results k) kws = []) =
       (\<not> list_ex (\<lambda>(doc, _). is_relevant lower (doc_text doc) kws) (first_k results k))"
    using relevant_positions_empty_iff
      [of "\<lambda>x. is_relevant lower (doc_text (fst x)) kws" "first_k results k"]
    by (simp add: relevant_positions_def case_prod_unfold del: upt_Suc)
qed

text \<open>Scenario B of the specification, the relevant document at rank 2 of 2, with
  \<open>k = 2\<close>, \<open>k = 1\<close> and \<open>k = -2\<close>.\<close>

theorem ndcg_at_k_formula_witness:
  "relevant_positions lower_latin1 (first_k scenario_b 2) scenario_keywords = [2]
   \<and> ndcg_at_k lower_latin1 scenario_b scenario_keywords 2 = Inr (1 / log 2 3)
   \<and> ndcg_at_k lower_latin1 scenario_b scenario_keywords 1 = Inr 0
   \<and> ndcg_at_k lower_latin1 scenario_b scenario_keywords (- 2) = Inr 0"
proof -
  have two: "relevant_positions lower_latin1 (first_k scenario_b 2) scenario_keywords = [2]"
    by (simp add: relevant_positions_def first_k_def scenario_b_def upt_conv_Cons
        doc_a_relevant doc_b_not_relevant)
  have one: "relevant_positions lower_latin1 (first_k scenario_b 1) scenario_keywords = []"
    by (simp add: relevant_positions_def first_k_def scenario_b_def upt_conv_Cons
        doc_b_not_relevant)
  have none: "relevant_positions lower_latin1 (first_k scenario_b (- 2)) scenario_keywords = []"
    by (simp add: relevant_positions_def first_k_def)
  have d1: "discount (Suc 0) = 1" by (simp add: discount_def)
  have d2: "discount 2 = 1 / log 2 3" by (simp add: discount_def)
  have len: "length scenario_b = 2" by (simp add: scenario_b_def)
  show ?thesis
    using ndcg_at_k_formula [of 2 scenario_b lower_latin1 scenario_keywords]
      ndcg_at_k_formula [of 1 scenario_b lower_latin1 scenario_keywords]
      ndcg_at_k_formula [of "- 2" scenario_b lower_latin1 scenario_keywords]
    by (simp add: two one none d1 d2 len upt_conv_Cons)
qed

text \<open>
  The claim as stated, for every \<open>k\<close>, fails at \<open>k = -1\<close> on scenario A: none of the results
  is among the first \<open>k\<close>, but the loop runs over \<open>results[:-1]\<close>, which holds the relevant
  first result, and the score is 1.
\<close>

theorem ndcg_negative_k_counterexample:
  "first_k scenario_a (- 1) = []
   \<and> \<not> list_ex (\<lambda>(doc, _). is_relevant lower_latin1 (doc_text doc) scenario_keywords)
         (first_k scenario_a (- 1))
   \<and> ndcg_at_k lower_latin1 scenario_a scenario_keywords (- 1) = Inr 1
   \<and> Inr 1 \<noteq> (Inr 0 :: error + real)"
  by (simp add: first_k_def ndcg_at_k_def py_slice_upto_def scenario_a_def doc_a_relevant
      gain_def math_log2_def py_div_def)

text \<open>
  C1 (amended). When the window \<open>results[:k]\<close> is empty, that is for \<open>k = 0\<close> and for a
  negative \<open>k\<close> with \<open>len(results) \<le> -k\<close>, \<open>recall_at_k\<close> and \<open>ndcg_at_k\<close> return 0;
  and on the empty ranked list \<open>recall_at_k\<close>, \<open>reciprocal_rank\<close> and \<open>ndcg_at_k\<close> return
  0 for any \<open>k\<close>.
\<close>

theorem metrics_zero_on_empty_window:
  "(k = 0 \<or> int (length results) \<le> - k \<longrightarrow>
      recall_at_k lower results kws k = 0 \<and> ndcg_at_k lower results kws k = Inr 0)
   \<and> recall_at_k lower [] kws k = 0
   \<and> reciprocal_rank lower [] kws = Inr 0
   \<and> ndcg_at_k lower [] kws k = Inr 0"
  by (simp add: py_slice_upto_empty py_slice_upto_Nil ndcg_at_k_empty_window
      recall_at_k_empty_window reciprocal_rank_def)

theorem metrics_zero_on_empty_window_witness:
  "recall_at_k lower_latin1 scenario_a scenario_keywords 0 = 0
   \<and> ndcg_at_k lower_latin1 scenario_a scenario_keywords 0 = Inr 0
   \<and> recall_at_k lower_latin1 scenario_a scenario_keywords (- 2) = 0
   \<and> ndcg_at_k lower_latin1 scenario_a scenario_keywords (- 2) = Inr 0
   \<and> recall_at_k lower_latin1 [] scenario_keywords 5 = 0
   \<and> reciprocal_rank lower_latin1 [] scenario_keywords = Inr 0
   \<and> ndcg_at_k lower_latin1 [] scenario_keywords 5 = Inr 0
   \<and> is_relevant lower_latin1 (doc_text (fst (hd scenario_a))) scenario_keywords"
  using metrics_zero_on_empty_window [of 0 scenario_a lower_latin1 scenario_keywords]
    metrics_zero_on_empty_window [of "- 2" scenario_a lower_latin1 scenario_keywords]
    metrics_zero_on_empty_window [of 5 scenario_a lower_latin1 scenario_keywords]
    doc_a_relevant
  by (simp add: scenario_a_def)

text \<open>
  The claim as stated, for every \<open>k < 1\<close>, fails at \<open>k = -1\<close>: the slice \<open>results[:-1]\<close>
  drops only the last result, so a relevant first result of two is still counted.
\<close>

theorem negative_k_counterexample:
  "(- 1 :: int) < 1
   \<and> recall_at_k lower_latin1 scenario_a scenario_keywords (- 1) = 1
   \<and> ndcg_at_k lower_latin1 scenario_a scenario_keywords (- 1) = Inr 1"
  by (simp add: recall_at_k_def ndcg_at_k_def py_slice_upto_def scenario_a_def doc_a_relevant
      gain_def math_log2_def py_div_def)

text \<open>
  C10. With an empty keyword list no document text is relevant, and the three metrics
  are 0 on every ranked result list (and every \<open>k\<close>).
\<close>

theorem empty_keywords_all_zero:
  "is_relevant lower t [] = False
   \<and> recall_at_k lower results [] k = 0
   \<and> reciprocal_rank lower results [] = Inr 0
   \<and> ndcg_at_k lower results [] k = Inr 0"
  by (simp add: is_relevant_no_keywords recall_at_k_def recall_loop_no_keywords
      reciprocal_rank_def rr_loop_no_keywords ndcg_at_k_def dcg_loop_no_keywords)

section \<open>Properties of text normalization\<close>

lemma is_space_32: "is_space 32"
  by (simp add: is_space_def)

lemma letter_not_space: "is_letter c \<Longrightarrow> \<not> is_space c"
  by (auto simp: is_letter_def is_space_def)

lemma sub_special_chars: "list_all (\<lambda>c. is_letter c \<or> is_space c) (sub_special s)"
  by (induction s) (auto simp: sub_special_def is_space_32)

lemma sub_spaces_plain:
  "list_all (\<lambda>c. is_letter c \<or> is_space c) s \<Longrightarrow> plain (sub_spaces s)"
proof (induction s rule: sub_spaces.induct)
  case 1
  then show ?case by (simp add: plain_def)
next
  case (2 c cs)
  show ?case
  proof (cases "is_space c")
    case True
    have "list_all (\<lambda>c. is_letter c \<or> is_space c) (dropWhile is_space cs)"
      using "2.prems" set_dropWhileD [of _ is_space cs] by (auto simp: list_all_iff)
    then have "plain (sub_spaces (dropWhile is_space cs))" using True "2.IH"(1) by simp
    then show ?thesis using True by (simp add: plain_def)
  next
    case False
    then have "plain (sub_spaces cs)" using "2.prems" "2.IH"(2) by simp
    then show ?thesis using False "2.prems" by (simp add: plain_def)
  qed
qed

lemma sub_spaces_head:
  "s \<noteq> [] \<Longrightarrow> \<not> is_space (hd s) \<Longrightarrow> sub_spaces s \<noteq> [] \<and> hd (sub_spaces s) = hd s"
  by (cases s) auto

lemma single_spaced_Cons:
  "single_spaced (c # s) =
     ((is_space c \<longrightarrow> c = 32 \<and> (s = [] \<or> \<not> is_space (hd s))) \<and> single_spaced s)"
  by (cases s) auto

lemma sub_spaces_single_spaced: "single_spaced (sub_spaces s)"
proof (induction s rule: sub_spaces.induct)
  case 1
  then show ?case by simp
next
  case (2 c cs)
  show ?case
  proof (cases "is_space c")
    case True
    let ?r = "dropWhile is_space cs"
    have ih: "single_spaced (sub_spaces ?r)" using True "2.IH"(1) by simp
    have "sub_spaces ?r = [] \<or> \<not> is_space (hd (sub_spaces ?r))"
    proof (cases "?r = []")
      case True
      then have "sub_spaces ?r = []" by (simp only: sub_spaces.simps(1))
      then show ?thesis by (rule disjI1)
    next
      case False
      then have "\<not> is_space (hd ?r)" by (rule hd_dropWhile)
      then show ?thesis using False sub_spaces_head [of ?r] by simp
    qed
    then show ?thesis using True ih by (simp add: single_spaced_Cons)
  next
    case False
    then show ?thesis using "2.IH"(2) by (simp add: single_spaced_Cons)
  qed
qed

lemma single_spaced_fixed: "single_spaced s \<Longrightarrow> sub_spaces s = s"
proof (induction s rule: sub_spaces.induct)
  case 1
  then show ?case by simp
next
  case (2 c cs)
  from "2.prems" have tl: "single_spaced cs" by (simp add: single_spaced_Cons)
  show ?case
  proof (cases "is_space c")
    case True
    with "2.prems" have c: "c = 32" and nxt: "cs = [] \<or> \<not> is_space (hd cs)"
      by (simp_all add: single_spaced_Cons)
    from nxt have "dropWhile is_space cs = cs" by (cases cs) auto
    then show ?thesis using True c tl "2.IH"(1) by simp
  next
    case False
    then show ?thesis using tl "2.IH"(2) by simp
  qed
qed

lemma single_spaced_append_left: "single_spaced (xs @ ys) \<Longrightarrow> single_spaced xs"
proof (induction xs)
  case Nil
  then show ?case by simp
next
  case (Cons x xs)
  then show ?case by (cases xs) (auto simp: single_spaced_Cons)
qed

lemma single_spaced_append_right: "single_spaced (xs @ ys) \<Longrightarrow> single_spaced ys"
  by (induction xs) (auto simp: single_spaced_Cons)

lemma rev_dropWhile_rev: "rev (dropWhile P (rev w)) @ rev (takeWhile P (rev w)) = w"
proof -
  have "rev (dropWhile P (rev w)) @ rev (takeWhile P (rev w)) =
        rev (takeWhile P (rev w) @ dropWhile P (rev w))"
    by (simp only: rev_append)
  then show ?thesis by (simp only: takeWhile_dropWhile_id rev_rev_ident)
qed

lemma strip_decomp:
  "\<exists>pre post. s = pre @ strip s @ post"
proof -
  let ?w = "dropWhile is_space s"
  have 1: "takeWhile is_space s @ ?w = s" by (rule takeWhile_dropWhile_id)
  have 2: "strip s @ rev (takeWhile is_space (rev ?w)) = ?w"
    unfolding strip_def by (rule rev_dropWhile_rev)
  have "s = takeWhile is_space s @ strip s @ rev (takeWhile is_space (rev ?w))"
    unfolding 2 1 by (rule refl)
  then show ?thesis by blast
qed

lemma strip_single_spaced: "single_spaced s \<Longrightarrow> single_spaced (strip s)"
proof -
  assume a: "single_spaced s"
  obtain pre post where "s = pre @ strip s @ post" using strip_decomp by blast
  with a have "single_spaced (pre @ strip s @ post)" by simp
  then have "single_spaced (strip s @ post)" by (rule single_spaced_append_right)
  then show ?thesis by (rule single_spaced_append_left)
qed

lemma strip_plain: "plain s \<Longrightarrow> plain (strip s)"
proof -
  assume a: "plain s"
  obtain pre post where "s = pre @ strip s @ post" using strip_decomp by blast
  then have "set (strip s) \<subseteq> set s" by (metis Un_upper1 Un_upper2 set_append subset_trans)
  with a show ?thesis by (auto simp: plain_def list_all_iff)
qed

lemma strip_trimmed: "trimmed (strip s)"
proof (cases "strip s = []")
  case True
  then show ?thesis by (simp add: trimmed_def)
next
  case False
  let ?w = "dropWhile is_space s"
  let ?y = "dropWhile is_space (rev ?w)"
  have y: "strip s = rev ?y" by (simp add: strip_def)
  with False have yne: "?y \<noteq> []" by simp
  then have "\<not> is_space (hd ?y)" by (rule hd_dropWhile)
  then have last: "\<not> is_space (last (strip s))" using yne by (simp add: y last_rev)
  have wne: "?w \<noteq> []"
  proof
    assume e: "?w = []"
    have "?y = []" unfolding e by simp
    with yne show False by (rule notE)
  qed
  then have hw: "\<not> is_space (hd ?w)" by (rule hd_dropWhile)
  have "strip s @ rev (takeWhile is_space (rev ?w)) = ?w"
    unfolding strip_def by (rule rev_dropWhile_rev)
  then have "hd ?w = hd (strip s)" using False by (metis hd_append2)
  with hw last show ?thesis by (simp add: trimmed_def)
qed

lemma trimmed_fixed: "trimmed s \<Longrightarrow> strip s = s"
proof (cases "s = []")
  case True
  then show ?thesis by (simp add: strip_def)
next
  case False
  assume "trimmed s"
  with False have h: "\<not> is_space (hd s)" and l: "\<not> is_space (last s)"
    by (simp_all add: trimmed_def)
  have 1: "dropWhile is_space s = s" using False h by (cases s) auto
  have "rev s \<noteq> []" "\<not> is_space (hd (rev s))" using False l by (simp_all add: hd_rev)
  then have 2: "dropWhile is_space (rev s) = rev s" by (cases "rev s") auto
  show ?thesis by (simp add: strip_def 1 2)
qed

lemma plain_fixed: "plain s \<Longrightarrow> sub_special s = s"
  by (induction s) (auto simp: plain_def sub_special_def is_space_32)

lemma normalize_text_shape:
  "plain (normalize_text lower x) \<and> single_spaced (normalize_text lower x)
   \<and> trimmed (normalize_text lower x)"
  by (simp add: normalize_text_def strip_plain sub_spaces_plain sub_special_chars
      strip_single_spaced sub_spaces_single_spaced strip_trimmed)

text \<open>
  C6. Text normalization is idempotent: normalizing a normalized text changes nothing.
  The lower-casing is a parameter; all that is asked of it is that it leaves a text of
  lower-case letters of the character class and spaces unchanged, as \<open>str.lower\<close> does.
\<close>

theorem normalize_text_idempotent:
  assumes "\<And>s. plain s \<Longrightarrow> lower s = s"
  shows "normalize_text lower (normalize_text lower x) = normalize_text lower x"
proof -
  let ?u = "normalize_text lower x"
  have p: "plain ?u" and s: "single_spaced ?u" and t: "trimmed ?u"
    using normalize_text_shape [of lower x] by simp_all
  have "normalize_text lower ?u = strip (sub_spaces (sub_special (lower ?u)))"
    by (simp add: normalize_text_def)
  also have "\<dots> = strip (sub_spaces (sub_special ?u))" using assms [OF p] by simp
  also have "\<dots> = strip (sub_spaces ?u)" using plain_fixed [OF p] by simp
  also have "\<dots> = strip ?u" using single_spaced_fixed [OF s] by simp
  also have "\<dots> = ?u" using trimmed_fixed [OF t] by simp
  finally show ?thesis .
qed

text \<open>The query of scenario D, normalized, and normalized again.\<close>

lemma lower_latin1_plain: "plain s \<Longrightarrow> lower_latin1 s = s"
  by (induction s) (auto simp: plain_def lower_latin1_def is_letter_def)

lemma normalize_cdi_query:
  "normalize_text lower_latin1 cdi_query =
     ascii ''dans quels cas un cdi peut il '' @ [234] @ ascii ''tre rompu sans pr'' @ [233]
       @ ascii ''avis''"
  by (simp add: normalize_text_def cdi_query_def ascii_def lower_latin1_def sub_special_def
      is_letter_def is_space_def strip_def)

theorem normalize_text_idempotent_witness:
  "normalize_text lower_latin1 (normalize_text lower_latin1 cdi_query) =
     normalize_text lower_latin1 cdi_query
   \<and> normalize_text lower_latin1 cdi_query =
     ascii ''dans quels cas un cdi peut il '' @ [234] @ ascii ''tre rompu sans pr'' @ [233]
       @ ascii ''avis''"
  using normalize_text_idempotent [of lower_latin1 cdi_query, OF lower_latin1_plain]
    normalize_cdi_query by simp

section \<open>Properties of intent detection and enrichment\<close>

lemma phrase_loop_iff: "phrase_loop ps nq = list_ex (\<lambda>p. sublist p nq) ps"
  by (induction ps) auto

lemma detect_loop_first_match:
  "list_all (\<lambda>(k, e). e ''intentions_utilisateur'' \<noteq> None) d \<Longrightarrow>
   detect_loop d nq = Inr (first_match nq d)"
proof (induction d)
  case Nil
  then show ?case by (simp add: first_match_def)
next
  case (Cons a d)
  obtain k e where a: "a = (k, e)" by (cases a)
  from Cons.prems obtain ps where ps: "e ''intentions_utilisateur'' = Some ps"
    by (auto simp: a)
  have ih: "detect_loop d nq = Inr (first_match nq d)" using Cons by simp
  show ?case
    using ih by (simp add: a ps field_get_def phrase_loop_iff first_match_def entry_matches_def)
qed

lemma first_match_None: "(first_match nq d = None) = (\<not> list_ex (\<lambda>(k, e). entry_matches nq e) d)"
  by (auto simp: first_match_def find_None_iff list_ex_iff)

lemma first_match_Some:
  "(first_match nq d = Some key) =
     (\<exists>i < length d. fst (d ! i) = key \<and> entry_matches nq (snd (d ! i))
        \<and> (\<forall>j < i. \<not> entry_matches nq (snd (d ! j))))"
proof
  let ?P = "\<lambda>(k, e). entry_matches nq e"
  assume "first_match nq d = Some key"
  then obtain x where x: "List.find ?P d = Some x" "fst x = key"
    by (auto simp: first_match_def)
  from x(1) have "\<exists>i < length d. ?P (d ! i) \<and> x = d ! i \<and> (\<forall>j < i. \<not> ?P (d ! j))"
    by (rule find_Some_iff [THEN iffD1])
  then obtain i where "i < length d" "?P (d ! i)" "x = d ! i" "\<forall>j < i. \<not> ?P (d ! j)"
    by (elim exE conjE)
  then show "\<exists>i < length d. fst (d ! i) = key \<and> entry_matches nq (snd (d ! i))
        \<and> (\<forall>j < i. \<not> entry_matches nq (snd (d ! j)))"
    using x(2) by (intro exI [of _ i]) (simp add: case_prod_unfold)
next
  let ?P = "\<lambda>(k, e). entry_matches nq e"
  assume "\<exists>i < length d. fst (d ! i) = key \<and> entry_matches nq (snd (d ! i))
        \<and> (\<forall>j < i. \<not> entry_matches nq (snd (d ! j)))"
  then obtain i where i: "i < length d" "fst (d ! i) = key" "entry_matches nq (snd (d ! i))"
    "\<forall>j < i. \<not> entry_matches nq (snd (d ! j))" by blast
  then have "\<exists>n < length d. ?P (d ! n) \<and> d ! i = d ! n \<and> (\<forall>j < n. \<not> ?P (d ! j))"
    by (intro exI [of _ i]) (simp add: case_prod_unfold)
  then have "List.find ?P d = Some (d ! i)" by (rule find_Some_iff [THEN iffD2])
  then show "first_match nq d = Some key" using i(2) by (simp add: first_match_def)
qed

lemma py_join_concat:
  "py_join sep xs = (case xs of [] \<Rightarrow> [] | t # rest \<Rightarrow> t @ concat (map (\<lambda>u. sep @ u) rest))"
  by (induction sep xs rule: py_join.induct) simp_all

lemma py_join_space_joined: "py_join [32] xs = space_joined xs"
proof -
  have eq: "(@) [32::nat] = (#) 32" by (rule ext) simp
  show ?thesis by (cases xs) (simp_all add: py_join_concat space_joined_def eq)
qed

lemma well_formed_entry:
  assumes "well_formed d" and "(key, e) \<in> set d"
  shows "map_of d key = Some e \<and> (\<forall>f \<in> set required_fields. e f \<noteq> None)"
proof -
  from assms have "distinct (map fst d)" by (simp add: well_formed_def)
  then have "map_of d key = Some e" using assms(2) by (rule map_of_is_SomeI)
  moreover have "\<forall>f \<in> set required_fields. e f \<noteq> None"
    using assms by (auto simp: well_formed_def list_all_iff)
  ultimately show ?thesis by simp
qed

lemma well_formed_triggers:
  "well_formed d \<Longrightarrow> list_all (\<lambda>(k, e). e ''intentions_utilisateur'' \<noteq> None) d"
  by (auto simp: well_formed_def list_all_iff required_fields_def)

text \<open>Concrete runs on the example dictionary.\<close>

lemma example_dictionary_well_formed: "well_formed example_dictionary"
  by (simp add: well_formed_def example_dictionary_def required_fields_def ascii_def
      economique_entry_def rupture_entry_def cdi_entry_def)

lemma example_dictionary_triggers:
  "list_all (\<lambda>(k, e). e ''intentions_utilisateur'' \<noteq> None) example_dictionary"
  by (rule well_formed_triggers [OF example_dictionary_well_formed])

lemma normalize_other_query:
  "normalize_text lower_latin1 other_query = ascii ''bonjour quelle heure est il''"
  by (simp add: normalize_text_def other_query_def ascii_def lower_latin1_def sub_special_def
      is_letter_def is_space_def strip_def)

lemma cdi_query_matches:
  "\<not> entry_matches (normalize_text lower_latin1 cdi_query) economique_entry
   \<and> entry_matches (normalize_text lower_latin1 cdi_query) rupture_entry
   \<and> entry_matches (normalize_text lower_latin1 cdi_query) cdi_entry"
  by (simp add: normalize_cdi_query entry_matches_def economique_entry_def rupture_entry_def
      cdi_entry_def ascii_def sublist_code(3))

lemma other_query_matches:
  "\<not> entry_matches (normalize_text lower_latin1 other_query) economique_entry
   \<and> \<not> entry_matches (normalize_text lower_latin1 other_query) rupture_entry
   \<and> \<not> entry_matches (normalize_text lower_latin1 other_query) cdi_entry"
  by (simp add: normalize_other_query entry_matches_def economique_entry_def rupture_entry_def
      cdi_entry_def ascii_def sublist_code(3))

lemma cdi_query_find:
  "List.find (\<lambda>(k, e). entry_matches (normalize_text lower_latin1 cdi_query) e)
     example_dictionary = Some (ascii ''rupture_sans_preavis'', rupture_entry)"
  by (simp add: example_dictionary_def cdi_query_matches)

lemma other_query_find:
  "List.find (\<lambda>(k, e). entry_matches (normalize_text lower_latin1 other_query) e)
     example_dictionary = None"
  by (simp add: example_dictionary_def other_query_matches)

text \<open>
  C7. On a dictionary whose entries all carry \<open>intentions_utilisateur\<close>, \<open>detect_intention\<close>
  normalizes the query and returns the key of the first entry, in declaration order, one of
  whose trigger phrases is a substring of the normalized query; it returns \<open>None\<close> when no
  entry matches.
\<close>

theorem detect_intention_first_match:
  assumes "list_all (\<lambda>(k, e). e ''intentions_utilisateur'' \<noteq> None) d"
  shows "detect_intention lower q d = Inr (first_match (normalize_text lower q) d)
     \<and> (first_match (normalize_text lower q) d = None) =
         (\<not> list_ex (\<lambda>(k, e). entry_matches (normalize_text lower q) e) d)
     \<and> (\<forall>key. (first_match (normalize_text lower q) d = Some key) =
         (\<exists>i < length d. fst (d ! i) = key
            \<and> entry_matches (normalize_text lower q) (snd (d ! i))
            \<and> (\<forall>j < i. \<not> entry_matches (normalize_text lower q) (snd (d ! j)))))"
  using detect_loop_first_match [OF assms] first_match_None first_match_Some
  by (simp add: detect_intention_def)

theorem detect_intention_first_match_witness:
  "detect_intention lower_latin1 cdi_query example_dictionary =
     Inr (Some (ascii ''rupture_sans_preavis''))
   \<and> entry_matches (normalize_text lower_latin1 cdi_query) (snd (example_dictionary ! 2))
   \<and> detect_intention lower_latin1 other_query example_dictionary = Inr None"
proof -
  have 1: "detect_intention lower_latin1 cdi_query example_dictionary =
             Inr (Some (ascii ''rupture_sans_preavis''))"
    using detect_intention_first_match
      [OF example_dictionary_triggers, of lower_latin1 cdi_query, THEN conjunct1]
    by (simp add: first_match_def cdi_query_find)
  have 2: "detect_intention lower_latin1 other_query example_dictionary = Inr None"
    using detect_intention_first_match
      [OF example_dictionary_triggers, of lower_latin1 other_query, THEN conjunct1]
    by (simp add: first_match_def other_query_find)
  have 3: "snd (example_dictionary ! 2) = cdi_entry"
    by (simp add: example_dictionary_def)
  show ?thesis using 1 2 cdi_query_matches by (simp add: 3)
qed

text \<open>
  C8. For an intent key of the dictionary whose entry carries both vocabularies,
  \<open>enrich_query\<close> returns the query verbatim, one space, and the terms of
  \<open>concepts_juridiques_centrals\<close> followed by those of \<open>termes_juridiques_textes\<close>,
  joined by single spaces.
\<close>

theorem enrich_query_result:
  assumes "map_of d key = Some e"
    and "e ''concepts_juridiques_centrals'' = Some cs"
    and "e ''termes_juridiques_textes'' = Some ts"
  shows "enrich_query q key d = Inr (q @ [32] @ space_joined (cs @ ts))"
  using assms by (simp add: enrich_query_def dict_get_def field_get_def py_join_space_joined)

theorem enrich_query_result_witness:
  "enrich_query cdi_query (ascii ''rupture_sans_preavis'') example_dictionary =
     Inr (cdi_query @ ascii '' faute grave faute lourde licenciement'')"
proof -
  have 1: "map_of example_dictionary (ascii ''rupture_sans_preavis'') = Some rupture_entry"
    by (simp add: example_dictionary_def ascii_def)
  have 2: "rupture_entry ''concepts_juridiques_centrals'' =
             Some [ascii ''faute grave'', ascii ''faute lourde'']"
    by (simp add: rupture_entry_def)
  have 3: "rupture_entry ''termes_juridiques_textes'' = Some [ascii ''licenciement'']"
    by (simp add: rupture_entry_def)
  show ?thesis
    using enrich_query_result [OF 1 2 3, of cdi_query]
    by (simp add: space_joined_def ascii_def)
qed

text \<open>
  C3. With an intent key that is not a key of the dictionary, \<open>enrich_query\<close> fails: the
  lookup \<open>dictionary[intent_key]\<close> raises \<open>KeyError\<close>, the precondition violation of the
  specification.
\<close>

theorem enrich_query_missing_key:
  assumes "key \<notin> set (map fst d)"
  shows "enrich_query q key d = Inl (KeyError key)"
proof -
  have "map_of d key = None" using assms by (simp add: map_of_eq_None_iff)
  then show ?thesis by (simp add: enrich_query_def dict_get_def)
qed

theorem enrich_query_missing_key_witness:
  "enrich_query cdi_query (ascii ''inconnu'') example_dictionary =
     Inl (KeyError (ascii ''inconnu''))"
proof -
  have "ascii ''inconnu'' \<notin> set (map fst example_dictionary)"
    by (simp add: example_dictionary_def ascii_def)
  then show ?thesis by (rule enrich_query_missing_key)
qed

text \<open>
  C4. When no trigger phrase of any entry is a substring of the normalized query,
  \<open>process_user_query\<close> returns a result whose \<open>intent_detected\<close> is \<open>None\<close> and whose
  \<open>enriched_query\<close> is the query, unchanged.
\<close>

theorem process_user_query_no_match:
  assumes "list_all (\<lambda>(k, e). e ''intentions_utilisateur'' \<noteq> None) d"
    and "\<not> list_ex (\<lambda>(k, e). entry_matches (normalize_text lower q) e) d"
  shows "\<exists>r. process_user_query lower q d = Inr r
           \<and> r ''intent_detected'' = Some PNone
           \<and> r ''enriched_query'' = Some (PStr q)"
proof -
  have "first_match (normalize_text lower q) d = None"
    using assms(2) by (simp add: first_match_None)
  then have "detect_intention lower q d = Inr None"
    using detect_loop_first_match [OF assms(1)] by (simp add: detect_intention_def)
  then show ?thesis by (simp add: process_user_query_def)
qed

theorem process_user_query_no_match_witness:
  "\<exists>r. process_user_query lower_latin1 other_query example_dictionary = Inr r
        \<and> r ''intent_detected'' = Some PNone
        \<and> r ''enriched_query'' = Some (PStr other_query)"
proof -
  have "\<not> list_ex (\<lambda>(k, e). entry_matches (normalize_text lower_latin1 other_query) e)
            example_dictionary"
    using other_query_matches by (simp add: example_dictionary_def)
  then show ?thesis by (rule process_user_query_no_match [OF example_dictionary_triggers])
qed

text \<open>
  C5. On a well-formed dictionary \<open>detect_intention\<close> returns the key of the first
  matching entry, if any, and \<open>process_user_query\<close> returns a result. When no intent is
  detected, the result has no \<open>codes_cibles\<close> and no \<open>articles_cibles\<close> and carries the
  note under \<open>notes\<close>; when an intent is detected, the result has both fields, with the
  values of the matched entry.
\<close>

theorem process_user_query_fields:
  assumes "well_formed d"
  shows "detect_intention lower q d =
           Inr (map_option fst
                  (List.find (\<lambda>(k, e). entry_matches (normalize_text lower q) e) d))
   \<and> (\<exists>r. process_user_query lower q d = Inr r
     \<and> (case List.find (\<lambda>(k, e). entry_matches (normalize_text lower q) e) d of
          None \<Rightarrow>
            r ''intent_detected'' = Some PNone
            \<and> ''codes_cibles'' \<notin> dom r \<and> ''articles_cibles'' \<notin> dom r
            \<and> r ''notes'' = Some (PStr no_intent_note)
        | Some (key, e) \<Rightarrow>
            r ''intent_detected'' = Some (PStr key)
            \<and> ''codes_cibles'' \<in> dom r \<and> ''articles_cibles'' \<in> dom r
            \<and> r ''codes_cibles'' = map_option PList (e ''codes_cibles'')
            \<and> r ''articles_cibles'' = map_option PList (e ''articles_cibles'')))"
proof (rule conjI)
  let ?nq = "normalize_text lower q"
  have det: "detect_intention lower q d = Inr (first_match ?nq d)"
    using detect_loop_first_match [OF well_formed_triggers [OF assms]]
    by (simp add: detect_intention_def)
  then show "detect_intention lower q d =
           Inr (map_option fst (List.find (\<lambda>(k, e). entry_matches ?nq e) d))"
    by (simp add: first_match_def)
  show "\<exists>r. process_user_query lower q d = Inr r
     \<and> (case List.find (\<lambda>(k, e). entry_matches ?nq e) d of
          None \<Rightarrow>
            r ''intent_detected'' = Some PNone
            \<and> ''codes_cibles'' \<notin> dom r \<and> ''articles_cibles'' \<notin> dom r
            \<and> r ''notes'' = Some (PStr no_intent_note)
        | Some (key, e) \<Rightarrow>
            r ''intent_detected'' = Some (PStr key)
            \<and> ''codes_cibles'' \<in> dom r \<and> ''articles_cibles'' \<in> dom r
            \<and> r ''codes_cibles'' = map_option PList (e ''codes_cibles'')
            \<and> r ''articles_cibles'' = map_option PList (e ''articles_cibles''))"
  proof (cases "List.find (\<lambda>(k, e). entry_matches ?nq e) d")
    case None
    then have "detect_intention lower q d = Inr None" using det by (simp add: first_match_def)
    then show ?thesis using None by (simp add: process_user_query_def)
  next
    case (Some a)
    obtain key e where a: "a = (key, e)" by (cases a)
    have mem: "(key, e) \<in> set d" using Some a by (metis find_Some_iff nth_mem)
    have look: "map_of d key = Some e" and req: "\<forall>f \<in> set required_fields. e f \<noteq> None"
      using well_formed_entry [OF assms mem] by simp_all
    from req obtain cs ts codes arts where
      f: "e ''concepts_juridiques_centrals'' = Some cs" "e ''termes_juridiques_textes'' = Some ts"
         "e ''codes_cibles'' = Some codes" "e ''articles_cibles'' = Some arts"
      by (auto simp: required_fields_def)
    have "detect_intention lower q d = Inr (Some key)"
      using det Some a by (simp add: first_match_def)
    then have "process_user_query lower q d =
        Inr [''intent_detected'' \<mapsto> PStr key,
             ''enriched_query'' \<mapsto> PStr (q @ [32] @ py_join [32] (cs @ ts)),
             ''codes_cibles'' \<mapsto> PList codes,
             ''articles_cibles'' \<mapsto> PList arts]"
      using look f
      by (simp add: process_user_query_def enrich_query_def dict_get_def field_get_def)
    then show ?thesis
      unfolding Some a by (simp add: f)
  qed
qed

theorem process_user_query_fields_witness:
  "(\<exists>r. process_user_query lower_latin1 cdi_query example_dictionary = Inr r
         \<and> r ''intent_detected'' = Some (PStr (ascii ''rupture_sans_preavis''))
         \<and> r ''codes_cibles'' = Some (PList [ascii ''code du travail''])
         \<and> r ''articles_cibles'' = Some (PList [ascii ''L1234-1'']))
   \<and> (\<exists>r. process_user_query lower_latin1 other_query example_dictionary = Inr r
         \<and> r ''intent_detected'' = Some PNone
         \<and> ''codes_cibles'' \<notin> dom r \<and> ''articles_cibles'' \<notin> dom r
         \<and> r ''notes'' = Some (PStr no_intent_note))"
proof -
  have c: "rupture_entry ''codes_cibles'' = Some [ascii ''code du travail'']"
    and a: "rupture_entry ''articles_cibles'' = Some [ascii ''L1234-1'']"
    by (simp_all add: rupture_entry_def)
  have 1: "\<exists>r. process_user_query lower_latin1 cdi_query example_dictionary = Inr r
         \<and> r ''intent_detected'' = Some (PStr (ascii ''rupture_sans_preavis''))
         \<and> r ''codes_cibles'' = Some (PList [ascii ''code du travail''])
         \<and> r ''articles_cibles'' = Some (PList [ascii ''L1234-1''])"
    using process_user_query_fields
      [OF example_dictionary_well_formed, of lower_latin1 cdi_query, THEN conjunct2]
    unfolding cdi_query_find by (auto simp: c a)
  have 2: "\<exists>r. process_user_query lower_latin1 other_query example_dictionary = Inr r
         \<and> r ''intent_detected'' = Some PNone
         \<and> ''codes_cibles'' \<notin> dom r \<and> ''articles_cibles'' \<notin> dom r
         \<and> r ''notes'' = Some (PStr no_intent_note)"
    using process_user_query_fields
      [OF example_dictionary_well_formed, of lower_latin1 other_query, THEN conjunct2]
    unfolding other_query_find by simp
  show ?thesis using 1 2 by (rule conjI)
qed

section \<open>Properties of the article-prefix oracle\<close>

lemma prefix_eval:
  "prefix (ascii ''L1234'') (ascii ''L1234-3'') \<and> \<not> prefix (ascii ''L1233'') (ascii ''L1234-3'')"
  by (simp add: ascii_def)

text \<open>
  C2. Under the article-prefix oracle a document whose \<open>meta.num\<close> is present and not
  empty is relevant iff \<open>meta.num\<close> starts with one of the \<open>relevant_num_prefixes\<close>; a
  document whose \<open>meta.num\<close> is absent or empty is judged by the keyword oracle over
  \<open>relevant_keywords_fallback\<close> when that is provided, and is not relevant otherwise.
\<close>

theorem is_relevant_v2_cases:
  "(\<forall>num. meta_num doc = Some num \<and> num \<noteq> [] \<longrightarrow>
      is_relevant_v2 lower doc bq = list_ex (\<lambda>p. prefix p num) (relevant_num_prefixes bq))
   \<and> ((meta_num doc = None \<or> meta_num doc = Some []) \<longrightarrow>
        is_relevant_v2 lower doc bq =
          (case relevant_keywords_fallback bq of
             None \<Rightarrow> False
           | Some kws \<Rightarrow> is_relevant lower (doc_text doc) kws))"
  by (auto simp: is_relevant_v2_def)

theorem is_relevant_v2_cases_witness:
  "is_relevant_v2 lower_latin1 doc_l1234 benchmark_q1
   \<and> \<not> is_relevant_v2 lower_latin1 doc_l1234 benchmark_q2
   \<and> \<not> is_relevant_v2 lower_latin1 doc_a bare_query
   \<and> is_relevant_v2 lower_latin1 doc_a benchmark_q1"
proof -
  have n: "meta_num doc_l1234 = Some (ascii ''L1234-3'')" "ascii ''L1234-3'' \<noteq> []"
    by (simp_all add: meta_num_def doc_l1234_def ascii_def)
  have m: "meta_num doc_a = None" by (simp add: meta_num_def doc_a_def)
  have p1: "relevant_num_prefixes benchmark_q1 = [ascii ''L1234'']"
    and p2: "relevant_num_prefixes benchmark_q2 = [ascii ''L1233'']"
    and f0: "relevant_keywords_fallback bare_query = None"
    by (simp_all add: benchmark_q1_def benchmark_q2_def bare_query_def)
  have k: "(case relevant_keywords_fallback benchmark_q1 of
              None \<Rightarrow> False
            | Some kws \<Rightarrow> is_relevant lower_latin1 (doc_text doc_a) kws)"
    by (simp add: benchmark_q1_def is_relevant_def doc_a_def ascii_def lower_latin1_def
        sublist_code(3))
  have 1: "is_relevant_v2 lower_latin1 doc_l1234 benchmark_q1"
    using is_relevant_v2_cases [of doc_l1234 lower_latin1 benchmark_q1]
    by (simp add: n p1 prefix_eval)
  have 2: "\<not> is_relevant_v2 lower_latin1 doc_l1234 benchmark_q2"
    using is_relevant_v2_cases [of doc_l1234 lower_latin1 benchmark_q2]
    by (simp add: n p2 prefix_eval)
  have 3: "\<not> is_relevant_v2 lower_latin1 doc_a bare_query"
    using is_relevant_v2_cases [of doc_a lower_latin1 bare_query]
    by (simp add: m f0)
  have 4: "is_relevant_v2 lower_latin1 doc_a benchmark_q1"
    using is_relevant_v2_cases [of doc_a lower_latin1 benchmark_q1] k
    by (simp add: m)
  show ?thesis using 1 2 3 4 by simp
qed

end
